theory Spec2Isabelle
  imports Main "HOL-Library.Sublist"
begin

section \<open>Python strings, \<open>str.find\<close> and slicing\<close>

text \<open>
  A Python \<open>str\<close> is a sequence of Unicode code points; a code point is modelled as a
  natural number and a string as the list of its code points.  The literals of the script
  are ASCII and are written as HOL strings, converted by \<open>str\<close>.
\<close>

type_synonym pystr = "nat list"

definition str :: "string \<Rightarrow> pystr" where
  "str cs = map of_char cs"

text \<open>
  \<open>s.find(sub, start)\<close>: the lowest index \<open>i \<ge> start\<close> at which \<open>sub\<close> occurs in \<open>s\<close>,
  or \<open>-1\<close>.  A negative \<open>start\<close> counts from the end and is clipped at \<open>0\<close>; a \<open>start\<close>
  beyond the end finds nothing.  \<open>find_at sub s i\<close> scans \<open>s\<close>, whose first character has
  index \<open>i\<close> in the whole string.
\<close>

fun find_at :: "'a list \<Rightarrow> 'a list \<Rightarrow> nat \<Rightarrow> int" where
  "find_at sub [] i = (if sub = [] then int i else - 1)"
| "find_at sub (c # cs) i = (if prefix sub (c # cs) then int i else find_at sub cs (Suc i))"

definition py_find :: "'a list \<Rightarrow> 'a list \<Rightarrow> int \<Rightarrow> int" where
  "py_find s sub start =
     (let n = int (length s);
          st = (if start < 0 then max (start + n) 0 else start)
      in if n < st then - 1 else find_at sub (drop (nat st) s) (nat st))"

text \<open>
  Slicing never raises: an index \<open>i < 0\<close> stands for \<open>len(s) + i\<close>, and the result is
  clipped to \<open>0 .. len(s)\<close>.  \<open>slice_to s i\<close> is \<open>s[:i]\<close> and \<open>slice_from s i\<close> is \<open>s[i:]\<close>.
\<close>

definition slice_index :: "int \<Rightarrow> nat \<Rightarrow> nat" where
  "slice_index i n = (if i < 0 then nat (max (i + int n) 0) else min (nat i) n)"

definition slice_to :: "'a list \<Rightarrow> int \<Rightarrow> 'a list" where
  "slice_to s i = take (slice_index i (length s)) s"

definition slice_from :: "'a list \<Rightarrow> int \<Rightarrow> 'a list" where
  "slice_from s i = drop (slice_index i (length s)) s"

section \<open>The regular expression \<open>(interface InputProps[^}]+})\<close>\<close>

definition rbrace :: nat where
  "rbrace = of_char (CHR ''}'')"

definition input_props_lit :: pystr where
  "input_props_lit = str ''interface InputProps''"

text \<open>
  The pattern anchored at the start of \<open>s\<close>: the literal, then the greedy run \<open>[^}]+\<close>
  (the longest run of characters other than \<open>}\<close>, newlines included, which must not be
  empty), then a \<open>}\<close>.  Backtracking into the run cannot help, since the character after a
  shorter run is not a \<open>}\<close>.  Group 1 is the whole match.
\<close>

definition match_input_props :: "pystr \<Rightarrow> pystr option" where
  "match_input_props s =
     (if prefix input_props_lit s then
        (let rest = drop (length input_props_lit) s;
             body = takeWhile (\<lambda>c. c \<noteq> rbrace) rest
         in if body \<noteq> [] \<and> length body < length rest
            then Some (input_props_lit @ body @ [rbrace]) else None)
      else None)"

text \<open>\<open>re.search\<close>: the match at the leftmost position where the pattern matches.\<close>

fun re_search :: "pystr \<Rightarrow> pystr option" where
  "re_search [] = match_input_props []"
| "re_search (c # cs) =
     (case match_input_props (c # cs) of Some m \<Rightarrow> Some m | None \<Rightarrow> re_search cs)"

datatype py_error = AttributeError | FileNotFoundError | PermissionError

text \<open>\<open>m.group(1)\<close> raises \<open>AttributeError\<close> when \<open>m\<close> is \<open>None\<close>.\<close>

definition group1 :: "pystr option \<Rightarrow> py_error + pystr" where
  "group1 m = (case m of None \<Rightarrow> Inl AttributeError | Some g \<Rightarrow> Inr g)"

section \<open>The script \<open>update_imports.py\<close>\<close>

subsection \<open>Its literals\<close>

definition font_size_comment :: pystr where
  "font_size_comment = str ''// Font size utility function''"

definition new_imports :: pystr where
  "new_imports = str
    (''\<newline>'' @
     ''// Import new extracted components\<newline>'' @
     ''import { Card } from './CLACalendar/components/Card';\<newline>'' @
     ''import { DayCell } from './CLACalendar/components/DayCell';\<newline>'' @
     ''import { MonthGrid } from './CLACalendar/components/MonthGrid';\<newline>'' @
     ''import { CalendarGrid } from './CLACalendar/components/CalendarGrid';\<newline>'' @
     ''import { LayerControl } from './CLACalendar/components/LayerControl';\<newline>'' @
     ''import { getFontSize, isSameMonth } from './CLACalendar/utils/calendar.utils';\<newline>'' @
     ''import type { CLACalendarProps as ExtractedCLACalendarProps, RenderResult, Renderer } from './CLACalendar/CLACalendar.types';\<newline>'' @
     ''\<newline>'')"

definition cache_comment :: pystr where
  "cache_comment = str ''// Add this outside the component to cache measurements''"

definition cache_decl :: pystr where
  "cache_decl = str ''const measurementCache = {''"

definition get_font_size_decl :: pystr where
  "get_font_size_decl = str ''const getFontSize =''"

definition block_end :: pystr where
  "block_end = str ''};''"

definition card_comment :: pystr where
  "card_comment = str ''// Add these interfaces after the existing ones''"

definition card_footer_decl :: pystr where
  "card_footer_decl = str ''Card.Footer = (''"

definition renderer_comment :: pystr where
  "renderer_comment = str ''// Add these type definitions''"

definition renderer_decl :: pystr where
  "renderer_decl = str ''interface Renderer''"

definition two_newlines :: pystr where
  "two_newlines = str ''\<newline>\<newline>''"

definition is_same_month_comment :: pystr where
  "is_same_month_comment = str ''/**\<newline> * A reliable implementation of isSameMonth''"

definition month_grid_comment :: pystr where
  "month_grid_comment = str ''// Update the MonthGrid to use proper types for weeks''"

definition newline :: pystr where
  "newline = str ''\<newline>''"

subsection \<open>Lines 13 to 32: the split at the font-size comment\<close>

definition import_end :: "pystr \<Rightarrow> int" where
  "import_end content = py_find content font_size_comment 0"

definition import_section :: "pystr \<Rightarrow> pystr" where
  "import_section content = slice_to content (import_end content)"

definition updated_imports :: "pystr \<Rightarrow> pystr" where
  "updated_imports content = import_section content @ new_imports"

subsection \<open>Lines 36 to 38: the first lookup of the measurement cache\<close>

definition measurement_cache_start :: "pystr \<Rightarrow> int" where
  "measurement_cache_start content =
     (let measurement_cache_start = py_find content cache_comment 0
      in if measurement_cache_start = - 1 then py_find content cache_decl 0
         else measurement_cache_start)"

subsection \<open>Lines 41 to 43: remove the getFontSize function\<close>

definition get_font_size_end :: "pystr \<Rightarrow> int" where
  "get_font_size_end content_after_imports =
     py_find content_after_imports block_end
       (py_find content_after_imports get_font_size_decl 0) + 2"

definition remove_get_font_size :: "pystr \<Rightarrow> pystr" where
  "remove_get_font_size content_after_imports =
     slice_from content_after_imports (get_font_size_end content_after_imports)"

subsection \<open>Lines 47 to 50: remove the Card interfaces and implementation\<close>

definition card_props_start :: "pystr \<Rightarrow> int" where
  "card_props_start content_after_imports = py_find content_after_imports card_comment 0"

definition card_component_end :: "pystr \<Rightarrow> int" where
  "card_component_end content_after_imports =
     py_find content_after_imports block_end
       (py_find content_after_imports card_footer_decl 0) + 2"

definition remove_card :: "pystr \<Rightarrow> pystr" where
  "remove_card content_after_imports =
     slice_to content_after_imports (card_props_start content_after_imports) @
     slice_from content_after_imports (card_component_end content_after_imports)"

subsection \<open>Lines 53 to 61: remove the Renderer interface, keep InputProps\<close>

text \<open>
  \<open>input_props_match.group(1) if input_props_match else ''\<close>: a match object is always
  true, \<open>None\<close> is false, and only the chosen branch is evaluated.
\<close>

definition input_props :: "pystr \<Rightarrow> py_error + pystr" where
  "input_props content_after_imports =
     (let input_props_match = re_search content_after_imports
      in if input_props_match \<noteq> None then group1 input_props_match else Inr [])"

definition renderer_start :: "pystr \<Rightarrow> int" where
  "renderer_start content_after_imports = py_find content_after_imports renderer_comment 0"

definition renderer_end :: "pystr \<Rightarrow> int" where
  "renderer_end content_after_imports =
     py_find content_after_imports [rbrace]
       (py_find content_after_imports renderer_decl 0) + 1"

definition remove_renderer :: "pystr \<Rightarrow> py_error + pystr" where
  "remove_renderer content_after_imports =
     (case input_props content_after_imports of
        Inl e \<Rightarrow> Inl e
      | Inr props \<Rightarrow>
          Inr (slice_to content_after_imports (renderer_start content_after_imports) @
               props @ two_newlines @
               slice_from content_after_imports (renderer_end content_after_imports)))"

subsection \<open>Lines 64 to 67: remove the isSameMonth function\<close>

definition is_same_month_start :: "pystr \<Rightarrow> int" where
  "is_same_month_start content_after_imports =
     py_find content_after_imports is_same_month_comment 0"

definition is_same_month_end :: "pystr \<Rightarrow> int" where
  "is_same_month_end content_after_imports =
     py_find content_after_imports block_end (is_same_month_start content_after_imports) + 2"

definition remove_is_same_month :: "pystr \<Rightarrow> pystr" where
  "remove_is_same_month content_after_imports =
     slice_to content_after_imports (is_same_month_start content_after_imports) @
     slice_from content_after_imports (is_same_month_end content_after_imports)"

subsection \<open>Lines 71 to 80: remove the duplicate components\<close>

definition measurement_idx :: "pystr \<Rightarrow> int" where
  "measurement_idx content_after_imports =
     (let measurement_idx = py_find content_after_imports cache_comment 0
      in if measurement_idx = - 1 then py_find content_after_imports cache_decl 0
         else measurement_idx)"

definition month_grid_start :: "pystr \<Rightarrow> int" where
  "month_grid_start content_after_imports =
     py_find content_after_imports month_grid_comment 0"

definition remove_duplicates :: "pystr \<Rightarrow> pystr" where
  "remove_duplicates content_after_imports =
     (if month_grid_start content_after_imports \<noteq> - 1 \<and>
         measurement_idx content_after_imports \<noteq> - 1
      then slice_to content_after_imports (month_grid_start content_after_imports) @
           newline @
           slice_from content_after_imports (measurement_idx content_after_imports)
      else content_after_imports)"

subsection \<open>Lines 41 to 86: from \<open>content\<close> to \<open>final_content\<close>\<close>

text \<open>The value of the variable \<open>content_after_imports\<close> when line 86 is reached.\<close>

definition content_after_imports :: "pystr \<Rightarrow> py_error + pystr" where
  "content_after_imports content =
     (let content_after_imports = slice_from content (import_end content);
          content_after_imports = remove_get_font_size content_after_imports;
          content_after_imports = remove_card content_after_imports
      in case remove_renderer content_after_imports of
           Inl e \<Rightarrow> Inl e
         | Inr content_after_imports \<Rightarrow>
             (let content_after_imports = remove_is_same_month content_after_imports
              in Inr (remove_duplicates content_after_imports)))"

text \<open>
  The whole computation on the text, with the assignments in the order of the script:
  \<open>updated_imports\<close> (line 32), \<open>measurement_cache_start\<close> (lines 36 to 38), the
  successive values of \<open>content_after_imports\<close> (lines 41 to 80), \<open>final_content\<close> (line 86).
\<close>

definition transform :: "pystr \<Rightarrow> py_error + pystr" where
  "transform content =
     (let updated = updated_imports content;
          cache_start = measurement_cache_start content
      in case content_after_imports content of
           Inl e \<Rightarrow> Inl e
         | Inr after \<Rightarrow> Inr (updated @ after))"

text \<open>The script with lines 36 to 38 deleted and nothing else changed.\<close>

definition transform_without_lines_36_38 :: "pystr \<Rightarrow> py_error + pystr" where
  "transform_without_lines_36_38 content =
     (let updated = updated_imports content
      in case content_after_imports content of
           Inl e \<Rightarrow> Inl e
         | Inr after \<Rightarrow> Inr (updated @ after))"

subsection \<open>Lines 9, 10 and 89 to 93: the files and the console\<close>

text \<open>
  The world the script runs in: the text of each file that exists, the paths that may be
  opened for writing, and the lines printed so far.  Decoding and encoding of the text
  are left out: a file holds the string that \<open>read\<close> returns and \<open>write\<close> is given.
\<close>

record world =
  files :: "string \<rightharpoonup> pystr"
  writable :: "string \<Rightarrow> bool"
  stdout :: "string list"

definition input_path :: string where
  "input_path = ''src/components/CLACalendar.tsx''"

definition output_path :: string where
  "output_path = ''src/components/CLACalendar.updated.tsx''"

definition status_lines :: "string list" where
  "status_lines =
     [''Updated file written to src/components/CLACalendar.updated.tsx'',
      ''Please review the changes before replacing the original file'']"

definition run :: "world \<Rightarrow> py_error + world" where
  "run w =
     (case files w input_path of
        None \<Rightarrow> Inl FileNotFoundError
      | Some content \<Rightarrow>
          (case transform content of
             Inl e \<Rightarrow> Inl e
           | Inr final_content \<Rightarrow>
               if \<not> writable w output_path then Inl PermissionError
               else Inr (w\<lparr>files := (files w)(output_path \<mapsto> final_content),
                           stdout := stdout w @ status_lines\<rparr>)))"

section \<open>Well-formed documents\<close>

text \<open>
  \<open>first_at m pre\<close>: in a string \<open>pre @ m @ post\<close> the marker \<open>m\<close> does not occur at any
  position before \<open>length pre\<close>, so that its first occurrence is the one written out.
\<close>

definition first_at :: "'a list \<Rightarrow> 'a list \<Rightarrow> bool" where
  "first_at m pre = (m \<noteq> [] \<and> \<not> sublist m (pre @ butlast m))"

text \<open>
  A document that holds every marker, in the order in which the script removes the blocks.
  The fields are the texts between the markers: the \<open>keep\<close> fields, \<open>head\<close>, \<open>anchor\<close> and
  \<open>tail\<close> lie outside the removed spans, the others inside them.
\<close>

record layout =
  head :: pystr
  font_gap :: pystr
  font_body :: pystr
  keep1 :: pystr
  card_gap :: pystr
  card_body :: pystr
  keep2 :: pystr
  renderer_gap :: pystr
  renderer_body :: pystr
  keep3 :: pystr
  same_month_body :: pystr
  keep4 :: pystr
  grid_body :: pystr
  anchor :: pystr
  tail :: pystr

definition grid_span :: "layout \<Rightarrow> pystr" where
  "grid_span L = month_grid_comment @ grid_body L"

definition same_month_span :: "layout \<Rightarrow> pystr" where
  "same_month_span L = is_same_month_comment @ same_month_body L @ block_end"

definition renderer_span :: "layout \<Rightarrow> pystr" where
  "renderer_span L =
     renderer_comment @ renderer_gap L @ renderer_decl @ renderer_body L @ [rbrace]"

definition card_span :: "layout \<Rightarrow> pystr" where
  "card_span L = card_comment @ card_gap L @ card_footer_decl @ card_body L @ block_end"

definition font_span :: "layout \<Rightarrow> pystr" where
  "font_span L =
     font_size_comment @ font_gap L @ get_font_size_decl @ font_body L @ block_end"

definition document :: "layout \<Rightarrow> pystr" where
  "document L =
     head L @ font_span L @ keep1 L @ card_span L @ keep2 L @ renderer_span L @
     keep3 L @ same_month_span L @ keep4 L @ grid_span L @ anchor L @ tail L"

text \<open>The buffer in which the regular expression is searched, and what it captures there.\<close>

definition after_card :: "layout \<Rightarrow> pystr" where
  "after_card L =
     keep1 L @ keep2 L @ renderer_span L @
     keep3 L @ same_month_span L @ keep4 L @ grid_span L @ anchor L @ tail L"

definition fragment :: "layout \<Rightarrow> pystr" where
  "fragment L = (case re_search (after_card L) of None \<Rightarrow> [] | Some m \<Rightarrow> m)"

text \<open>The retained text in front of the isSameMonth comment and in front of the MonthGrid comment.\<close>

definition kept3 :: "layout \<Rightarrow> pystr" where
  "kept3 L = keep1 L @ keep2 L @ fragment L @ two_newlines @ keep3 L"

definition kept4 :: "layout \<Rightarrow> pystr" where
  "kept4 L = kept3 L @ keep4 L"

text \<open>
  The lookups of the first four removals find their markers where the layout has them: no
  marker occurs earlier in the buffer that is searched.
\<close>

definition spans_found :: "layout \<Rightarrow> bool" where
  "spans_found L =
     (first_at font_size_comment (head L) \<and>
      first_at get_font_size_decl (font_size_comment @ font_gap L) \<and>
      first_at block_end (get_font_size_decl @ font_body L) \<and>
      first_at card_comment (keep1 L) \<and>
      first_at card_footer_decl (keep1 L @ card_comment @ card_gap L) \<and>
      first_at block_end (card_footer_decl @ card_body L) \<and>
      first_at renderer_comment (keep1 L @ keep2 L) \<and>
      first_at renderer_decl (keep1 L @ keep2 L @ renderer_comment @ renderer_gap L) \<and>
      first_at [rbrace] (renderer_decl @ renderer_body L) \<and>
      first_at is_same_month_comment (kept3 L) \<and>
      first_at block_end (is_same_month_comment @ same_month_body L))"

text \<open>
  Every lookup of the script finds its marker where the layout has it.  The anchor is
  either of the two alternatives; the second one is the anchor only where the first does
  not occur.
\<close>

definition well_formed :: "layout \<Rightarrow> bool" where
  "well_formed L =
     (spans_found L \<and>
      first_at month_grid_comment (kept4 L) \<and>
      (if anchor L = cache_comment
       then first_at cache_comment (kept4 L @ grid_span L)
       else anchor L = cache_decl \<and>
            first_at cache_decl (kept4 L @ grid_span L) \<and>
            \<not> sublist cache_comment (kept4 L @ grid_span L @ anchor L @ tail L)))"

text \<open>The document with its five spans removed and the three insertions made.\<close>

definition retained_after :: "layout \<Rightarrow> pystr" where
  "retained_after L = kept4 L @ newline @ anchor L @ tail L"

definition spliced :: "layout \<Rightarrow> pystr" where
  "spliced L = head L @ new_imports @ retained_after L"

text \<open>A small well-formed document, with the first of the two anchors.\<close>

definition example_layout :: layout where
  "example_layout =
     \<lparr>head = str ''import React from 'react';\<newline>'',
      font_gap = str ''\<newline>'',
      font_body = str '' (n) => {\<newline>  return n;\<newline>'',
      keep1 = str ''\<newline>const A = 1;\<newline>'',
      card_gap = str ''\<newline>interface CardProps { x: number }\<newline>'',
      card_body = str ''props) => {\<newline>'',
      keep2 = str ''\<newline>const B = 2;\<newline>'',
      renderer_gap = str ''\<newline>interface InputProps { value: string }\<newline>'',
      renderer_body = str '' { render(): void '',
      keep3 = str ''\<newline>const C = 3;\<newline>'',
      same_month_body = str ''\<newline> */\<newline>const isSameMonth = () => {\<newline>'',
      keep4 = str ''\<newline>const D = 4;\<newline>'',
      grid_body = str ''\<newline>const MonthGrid = 0;\<newline>'',
      anchor = cache_comment,
      tail = str ''\<newline>const measurementCache = {};\<newline>''\<rparr>"

text \<open>
  The same document with the MonthGrid comment also in the second kept text, in front of
  the Renderer block: its markers are not in the expected order.
\<close>

definition misordered_layout :: layout where
  "misordered_layout =
     example_layout
       \<lparr>keep2 := str ''\<newline>// Update the MonthGrid to use proper types for weeks\<newline>''\<rparr>"

text \<open>A buffer with the Renderer block but no InputProps declaration.\<close>

definition no_props_buffer :: pystr where
  "no_props_buffer = str ''let a;\<newline>// Add these type definitions\<newline>interface Renderer { f(): void }\<newline>let b;\<newline>''"

text \<open>
  Two worlds holding the example document: in the second the output file already exists,
  only the output path may be written and a line has been printed.
\<close>

definition example_world :: world where
  "example_world =
     \<lparr>files = [input_path \<mapsto> document example_layout],
      writable = (\<lambda>p. True),
      stdout = []\<rparr>"

definition example_world2 :: world where
  "example_world2 =
     \<lparr>files = [input_path \<mapsto> document example_layout, output_path \<mapsto> str ''stale''],
      writable = (\<lambda>p. p = output_path),
      stdout = [''earlier line'']\<rparr>"

section \<open>Facts about \<open>find\<close> and slicing\<close>

lemma find_at_range:
  "find_at sub s i = - 1 \<or> (int i \<le> find_at sub s i \<and> find_at sub s i \<le> int (i + length s))"
proof (induction s arbitrary: i)
  case Nil
  show ?case by simp
next
  case (Cons c cs)
  from Cons.IH [of "Suc i"] show ?case by auto
qed

lemma find_at_none:
  assumes "sub \<noteq> []"
  shows "(find_at sub s i = - 1) = (\<not> sublist sub s)"
proof (induction s arbitrary: i)
  case Nil
  from assms show ?case by simp
next
  case (Cons c cs)
  have "find_at sub (c # cs) i \<noteq> - 1" if "prefix sub (c # cs)"
    using that by simp
  moreover have "find_at sub (c # cs) i = find_at sub cs (Suc i)" if "\<not> prefix sub (c # cs)"
    using that by simp
  ultimately show ?case
    using Cons.IH [of "Suc i"] by (auto simp: sublist_Cons_right)
qed

lemma prefix_overlap:
  assumes "prefix m (pre @ m @ post)" and "pre \<noteq> []"
  shows "prefix m (pre @ butlast m)"
proof (cases "m = []")
  case True
  then show ?thesis by simp
next
  case False
  with assms(2) have less: "length m - length pre < length m"
    by (cases pre) simp_all
  from assms(1) obtain zs where "pre @ m @ post = m @ zs"
    by (auto simp: prefix_def)
  then have "take (length m) (pre @ m @ post) = take (length m) (m @ zs)"
    by (rule arg_cong)
  then have "m = take (length m) (pre @ m @ post)"
    by simp
  also have "\<dots> = take (length m) pre @ take (length m - length pre) m"
    by simp
  also have "take (length m - length pre) m = take (length m - length pre) (butlast m)"
    using less by (simp add: take_butlast)
  also have "take (length m) pre @ take (length m - length pre) (butlast m) =
      take (length m) (pre @ butlast m)"
    by simp
  finally have "m = take (length m) (pre @ butlast m)" .
  then show ?thesis
    by (metis take_is_prefix)
qed

lemma find_at_first:
  assumes "m \<noteq> []"
  shows "\<not> sublist m (pre @ butlast m) \<Longrightarrow> find_at m (pre @ m @ post) i = int (i + length pre)"
proof (induction pre arbitrary: i)
  case Nil
  from assms obtain c cs where "m = c # cs" by (cases m) auto
  then show ?case by simp
next
  case (Cons a pre)
  have "\<not> prefix m ((a # pre) @ m @ post)"
    using prefix_overlap [of m "a # pre" post] Cons.prems by auto
  moreover have "\<not> sublist m (pre @ butlast m)"
    using Cons.prems by (auto simp: sublist_Cons_right)
  ultimately show ?case
    using Cons.IH [of "Suc i"] by simp
qed


lemma py_find_0: "py_find s sub 0 = find_at sub s 0"
  by (simp add: py_find_def)

lemma py_find_nat: "k \<le> length s \<Longrightarrow> py_find s sub (int k) = find_at sub (drop k s) k"
  by (simp add: py_find_def)

lemma slice_to_nat: "slice_to s (int k) = take k s"
  by (simp add: slice_to_def slice_index_def min_def)

lemma slice_from_nat: "slice_from s (int k) = drop k s"
  by (simp add: slice_from_def slice_index_def min_def)






lemma py_find_lower: "- 1 \<le> py_find s sub start"
proof -
  have "- 1 \<le> find_at sub t i" for t i
    using find_at_range [of sub t i] by auto
  then show ?thesis by (simp add: py_find_def Let_def)
qed

lemma py_find_none: "sub \<noteq> [] \<Longrightarrow> (py_find s sub 0 = - 1) = (\<not> sublist sub s)"
  by (simp add: py_find_0 find_at_none)

lemma py_find_first:
  "first_at m pre \<Longrightarrow> py_find (pre @ m @ post) m 0 = int (length pre)"
  by (simp add: py_find_0 find_at_first first_at_def)

lemma py_find_from_first:
  assumes "first_at e mid"
  shows "py_find (pre @ mid @ e @ post) e (int (length pre)) = int (length (pre @ mid))"
proof -
  have "py_find (pre @ mid @ e @ post) e (int (length pre)) =
      find_at e (drop (length pre) (pre @ mid @ e @ post)) (length pre)"
    by (rule py_find_nat) simp
  also have "\<dots> = find_at e (mid @ e @ post) (length pre)" by simp
  also have "\<dots> = int (length pre + length mid)"
    using assms by (simp add: find_at_first first_at_def)
  finally show ?thesis by simp
qed

lemma end_after:
  assumes "first_at m a" and "first_at e (m @ b)"
  shows "py_find (a @ m @ b @ e @ r) e (py_find (a @ m @ b @ e @ r) m 0) + int (length e) =
    int (length (a @ m @ b @ e))"
proof -
  have "py_find (a @ m @ b @ e @ r) m 0 = int (length a)"
    using assms(1) by (rule py_find_first)
  moreover have "py_find (a @ (m @ b) @ e @ r) e (int (length a)) = int (length (a @ (m @ b)))"
    using assms(2) by (rule py_find_from_first)
  ultimately show ?thesis by simp
qed

lemma slice_to_append: "slice_to (a @ r) (int (length a)) = a"
  by (simp add: slice_to_nat)

lemma slice_from_append: "slice_from (a @ r) (int (length a)) = r"
  by (simp add: slice_from_nat)

section \<open>The steps of the script on a well-formed document\<close>

lemma length_block_end: "int (length block_end) = 2"
  by (simp add: block_end_def str_def)

lemma input_props_total:
  "input_props buf = Inr (case re_search buf of None \<Rightarrow> [] | Some m \<Rightarrow> m)"
  by (simp add: input_props_def group1_def Let_def split: option.splits)

lemma split_found:
  assumes "first_at font_size_comment h"
  shows "import_end (h @ font_size_comment @ r) = int (length h)"
  unfolding import_end_def using assms by (rule py_find_first)

lemma remove_get_font_size_found:
  assumes "first_at get_font_size_decl a" and "first_at block_end (get_font_size_decl @ b)"
  shows "remove_get_font_size (a @ get_font_size_decl @ b @ block_end @ r) = r"
proof -
  let ?buf = "a @ get_font_size_decl @ b @ block_end @ r"
  have "get_font_size_end ?buf = int (length (a @ get_font_size_decl @ b @ block_end))"
    unfolding get_font_size_end_def
    using end_after [OF assms, of r] length_block_end by simp
  then have "remove_get_font_size ?buf =
      slice_from ((a @ get_font_size_decl @ b @ block_end) @ r)
        (int (length (a @ get_font_size_decl @ b @ block_end)))"
    by (simp add: remove_get_font_size_def)
  then show ?thesis by (simp only: slice_from_append)
qed

lemma remove_card_found:
  assumes "first_at card_comment k"
    and "first_at card_footer_decl (k @ card_comment @ g)"
    and "first_at block_end (card_footer_decl @ b)"
  shows "remove_card (k @ card_comment @ g @ card_footer_decl @ b @ block_end @ r) = k @ r"
proof -
  let ?span = "card_comment @ g @ card_footer_decl @ b @ block_end"
  let ?buf = "k @ card_comment @ g @ card_footer_decl @ b @ block_end @ r"
  have start: "card_props_start ?buf = int (length k)"
    unfolding card_props_start_def using assms(1) by (rule py_find_first)
  have "card_component_end ((k @ card_comment @ g) @ card_footer_decl @ b @ block_end @ r) =
      int (length ((k @ card_comment @ g) @ card_footer_decl @ b @ block_end))"
    unfolding card_component_end_def
    using end_after [OF assms(2,3), of r] length_block_end by simp
  then have stop: "card_component_end ?buf = int (length (k @ ?span))"
    by simp
  have "remove_card ?buf = slice_to (k @ ?span @ r) (int (length k)) @
      slice_from ((k @ ?span) @ r) (int (length (k @ ?span)))"
    unfolding remove_card_def start stop by simp
  then show ?thesis by (simp only: slice_to_append slice_from_append)
qed

lemma remove_renderer_found:
  assumes "first_at renderer_comment k"
    and "first_at renderer_decl (k @ renderer_comment @ g)"
    and "first_at [rbrace] (renderer_decl @ b)"
    and "buf = k @ renderer_comment @ g @ renderer_decl @ b @ [rbrace] @ r"
  shows "remove_renderer buf =
    Inr (k @ (case re_search buf of None \<Rightarrow> [] | Some m \<Rightarrow> m) @ two_newlines @ r)"
proof -
  let ?span = "renderer_comment @ g @ renderer_decl @ b @ [rbrace]"
  have start: "renderer_start buf = int (length k)"
    unfolding renderer_start_def assms(4) using assms(1) by (rule py_find_first)
  have "renderer_end ((k @ renderer_comment @ g) @ renderer_decl @ b @ [rbrace] @ r) =
      int (length ((k @ renderer_comment @ g) @ renderer_decl @ b @ [rbrace]))"
    unfolding renderer_end_def
    using end_after [OF assms(2,3), of r] by simp
  then have stop: "renderer_end buf = int (length (k @ ?span))"
    by (simp add: assms(4))
  have to: "slice_to buf (int (length k)) = k"
    unfolding assms(4) by (rule slice_to_append)
  have "slice_from ((k @ ?span) @ r) (int (length (k @ ?span))) = r"
    by (rule slice_from_append)
  then have "slice_from buf (int (length (k @ ?span))) = r"
    by (simp add: assms(4))
  then show ?thesis
    unfolding remove_renderer_def input_props_total start stop to by simp
qed

lemma remove_is_same_month_found:
  assumes "first_at is_same_month_comment k"
    and "first_at block_end (is_same_month_comment @ b)"
  shows "remove_is_same_month (k @ is_same_month_comment @ b @ block_end @ r) = k @ r"
proof -
  let ?span = "is_same_month_comment @ b @ block_end"
  let ?buf = "k @ is_same_month_comment @ b @ block_end @ r"
  have start: "is_same_month_start ?buf = int (length k)"
    unfolding is_same_month_start_def using assms(1) by (rule py_find_first)
  have stop: "is_same_month_end ?buf = int (length (k @ ?span))"
    unfolding is_same_month_end_def is_same_month_start_def
    using end_after [OF assms, of r] length_block_end by simp
  have "remove_is_same_month ?buf = slice_to (k @ ?span @ r) (int (length k)) @
      slice_from ((k @ ?span) @ r) (int (length (k @ ?span)))"
    unfolding remove_is_same_month_def start stop by simp
  then show ?thesis by (simp only: slice_to_append slice_from_append)
qed


lemma month_grid_start_found:
  "first_at month_grid_comment k \<Longrightarrow>
   month_grid_start (k @ month_grid_comment @ r) = int (length k)"
  unfolding month_grid_start_def by (rule py_find_first)

lemma measurement_idx_cases:
  "measurement_idx buf =
     (if sublist cache_comment buf then py_find buf cache_comment 0
      else py_find buf cache_decl 0)"
proof -
  have "cache_comment \<noteq> []" by (simp add: cache_comment_def str_def)
  then show ?thesis
    by (simp add: measurement_idx_def Let_def py_find_none)
qed

lemma measurement_idx_found:
  assumes "if a = cache_comment then first_at cache_comment k
     else a = cache_decl \<and> first_at cache_decl k \<and> \<not> sublist cache_comment (k @ a @ t)"
  shows "measurement_idx (k @ a @ t) = int (length k)"
proof (cases "a = cache_comment")
  case True
  with assms have first: "first_at cache_comment k" by simp
  then have "py_find (k @ cache_comment @ t) cache_comment 0 = int (length k)"
    by (rule py_find_first)
  moreover have "sublist cache_comment (k @ cache_comment @ t)"
    by (rule sublist_appendI)
  ultimately show ?thesis
    using True by (simp add: measurement_idx_cases)
next
  case False
  with assms have a: "a = cache_decl" and first: "first_at cache_decl k"
    and none: "\<not> sublist cache_comment (k @ a @ t)"
    by auto
  from first have "py_find (k @ cache_decl @ t) cache_decl 0 = int (length k)"
    by (rule py_find_first)
  with a none show ?thesis
    by (simp add: measurement_idx_cases)
qed

lemma remove_duplicates_found:
  assumes "first_at month_grid_comment k"
    and "if a = cache_comment then first_at cache_comment (k @ month_grid_comment @ d)
     else a = cache_decl \<and> first_at cache_decl (k @ month_grid_comment @ d) \<and>
          \<not> sublist cache_comment (k @ month_grid_comment @ d @ a @ t)"
  shows "remove_duplicates (k @ month_grid_comment @ d @ a @ t) = k @ newline @ a @ t"
proof -
  let ?buf = "k @ month_grid_comment @ d @ a @ t"
  have start: "month_grid_start ?buf = int (length k)"
    using assms(1) by (rule month_grid_start_found)
  have "measurement_idx ((k @ month_grid_comment @ d) @ a @ t) =
      int (length (k @ month_grid_comment @ d))"
    by (rule measurement_idx_found) (use assms(2) in simp)
  then have idx: "measurement_idx ?buf = int (length (k @ month_grid_comment @ d))"
    by simp
  have "slice_from ((k @ month_grid_comment @ d) @ a @ t)
      (int (length (k @ month_grid_comment @ d))) = a @ t"
    by (rule slice_from_append)
  then have "slice_from ?buf (int (length (k @ month_grid_comment @ d))) = a @ t"
    by simp
  moreover have "slice_to ?buf (int (length k)) = k"
    by (rule slice_to_append)
  ultimately show ?thesis
    unfolding remove_duplicates_def start idx by simp
qed

lemma remove_duplicates_not_found:
  assumes "\<not> sublist month_grid_comment buf \<or>
     (\<not> sublist cache_comment buf \<and> \<not> sublist cache_decl buf)"
  shows "remove_duplicates buf = buf"
proof -
  have ne: "month_grid_comment \<noteq> []" "cache_decl \<noteq> []"
    by (simp_all add: month_grid_comment_def cache_decl_def str_def)
  from assms have "month_grid_start buf = - 1 \<or> measurement_idx buf = - 1"
    by (auto simp: month_grid_start_def measurement_idx_cases py_find_none ne)
  then show ?thesis
    by (auto simp: remove_duplicates_def)
qed

lemma document_split: "document L = head L @ font_size_comment @
    font_gap L @ get_font_size_decl @ font_body L @ block_end @
    keep1 L @ card_comment @ card_gap L @ card_footer_decl @ card_body L @ block_end @
    keep2 L @ renderer_comment @ renderer_gap L @ renderer_decl @ renderer_body L @ [rbrace] @
    keep3 L @ is_same_month_comment @ same_month_body L @ block_end @
    keep4 L @ month_grid_comment @ grid_body L @ anchor L @ tail L"
  by (simp add: document_def font_span_def card_span_def renderer_span_def
      same_month_span_def grid_span_def)

lemma import_section_well_formed:
  assumes "well_formed L"
  shows "import_section (document L) = head L"
proof -
  from assms have "first_at font_size_comment (head L)"
    by (simp add: well_formed_def spans_found_def)
  then have "import_end (document L) = int (length (head L))"
    unfolding document_split by (rule split_found)
  then show ?thesis
    unfolding import_section_def unfolding document_split by (simp only: slice_to_append)
qed

lemma before_last_removal:
  assumes "spans_found L"
  shows "content_after_imports (document L) =
    Inr (remove_duplicates (kept4 L @ grid_span L @ anchor L @ tail L))"
proof -
  let ?r5 = "grid_body L @ anchor L @ tail L"
  let ?r4 = "keep4 L @ month_grid_comment @ ?r5"
  let ?r3 = "keep3 L @ is_same_month_comment @ same_month_body L @ block_end @ ?r4"
  let ?r2 = "keep2 L @ renderer_comment @ renderer_gap L @ renderer_decl @
    renderer_body L @ [rbrace] @ ?r3"
  let ?r1 = "keep1 L @ card_comment @ card_gap L @ card_footer_decl @ card_body L @
    block_end @ ?r2"
  let ?r0 = "font_gap L @ get_font_size_decl @ font_body L @ block_end @ ?r1"
  have doc: "document L = head L @ font_size_comment @ ?r0"
    by (rule document_split)
  have ac: "after_card L = (keep1 L @ keep2 L) @ renderer_comment @ renderer_gap L @
      renderer_decl @ renderer_body L @ [rbrace] @ ?r3"
    by (simp add: after_card_def renderer_span_def same_month_span_def grid_span_def)
  from assms have w1: "first_at font_size_comment (head L)"
    and w2: "first_at get_font_size_decl (font_size_comment @ font_gap L)"
    and w3: "first_at block_end (get_font_size_decl @ font_body L)"
    and w4: "first_at card_comment (keep1 L)"
    and w5: "first_at card_footer_decl (keep1 L @ card_comment @ card_gap L)"
    and w6: "first_at block_end (card_footer_decl @ card_body L)"
    and w7: "first_at renderer_comment (keep1 L @ keep2 L)"
    and w8: "first_at renderer_decl ((keep1 L @ keep2 L) @ renderer_comment @ renderer_gap L)"
    and w9: "first_at [rbrace] (renderer_decl @ renderer_body L)"
    and w10: "first_at is_same_month_comment (kept3 L)"
    and w11: "first_at block_end (is_same_month_comment @ same_month_body L)"
    by (simp_all add: spans_found_def)
  have s1: "import_end (document L) = int (length (head L))"
    unfolding doc using w1 by (rule split_found)
  have s1b: "slice_from (document L) (import_end (document L)) = font_size_comment @ ?r0"
    unfolding s1 unfolding doc by (rule slice_from_append)
  have "remove_get_font_size
      ((font_size_comment @ font_gap L) @ get_font_size_decl @ font_body L @ block_end @ ?r1) = ?r1"
    using w2 w3 by (rule remove_get_font_size_found)
  then have s2: "remove_get_font_size (font_size_comment @ ?r0) = ?r1"
    by simp
  have s3: "remove_card ?r1 = keep1 L @ ?r2"
    using w4 w5 w6 by (rule remove_card_found)
  have "remove_renderer (keep1 L @ ?r2) =
      Inr ((keep1 L @ keep2 L) @
        (case re_search (keep1 L @ ?r2) of None \<Rightarrow> [] | Some m \<Rightarrow> m) @ two_newlines @ ?r3)"
    using w7 w8 w9 by (rule remove_renderer_found) simp
  moreover have "keep1 L @ ?r2 = after_card L"
    by (simp add: ac)
  ultimately have "remove_renderer (keep1 L @ ?r2) =
      Inr ((keep1 L @ keep2 L) @ fragment L @ two_newlines @ ?r3)"
    by (simp add: fragment_def)
  then have s4: "remove_renderer (keep1 L @ ?r2) =
      Inr (kept3 L @ is_same_month_comment @ same_month_body L @ block_end @ ?r4)"
    by (simp add: kept3_def)
  have s5: "remove_is_same_month
      (kept3 L @ is_same_month_comment @ same_month_body L @ block_end @ ?r4) = kept3 L @ ?r4"
    using w10 w11 by (rule remove_is_same_month_found)
  have "kept3 L @ ?r4 = kept4 L @ grid_span L @ anchor L @ tail L"
    by (simp add: kept4_def grid_span_def)
  then show ?thesis
    by (simp only: content_after_imports_def Let_def s1b s2 s3 s4 s5 sum.case)
qed

lemma content_after_imports_well_formed:
  assumes "well_formed L"
  shows "content_after_imports (document L) = Inr (retained_after L)"
proof -
  from assms have found: "spans_found L" and w12: "first_at month_grid_comment (kept4 L)"
    by (simp_all add: well_formed_def)
  from assms have w13: "if anchor L = cache_comment
       then first_at cache_comment (kept4 L @ month_grid_comment @ grid_body L)
       else anchor L = cache_decl \<and>
            first_at cache_decl (kept4 L @ month_grid_comment @ grid_body L) \<and>
            \<not> sublist cache_comment
                (kept4 L @ month_grid_comment @ grid_body L @ anchor L @ tail L)"
    by (auto simp: well_formed_def grid_span_def split: if_splits)
  have "remove_duplicates (kept4 L @ month_grid_comment @ grid_body L @ anchor L @ tail L) =
      kept4 L @ newline @ anchor L @ tail L"
    using w12 w13 by (rule remove_duplicates_found)
  then show ?thesis
    by (simp add: before_last_removal [OF found] grid_span_def retained_after_def)
qed

lemma transform_well_formed:
  assumes "well_formed L"
  shows "transform (document L) = Inr (spliced L)"
  by (simp add: transform_def Let_def updated_imports_def spliced_def
      content_after_imports_well_formed [OF assms] import_section_well_formed [OF assms])

section \<open>The regular expression search\<close>

lemma input_props_lit_nonempty: "input_props_lit \<noteq> []"
  by (simp add: input_props_lit_def str_def)

lemma match_input_props_iff:
  "match_input_props s = Some m \<longleftrightarrow>
     (\<exists>body post. s = input_props_lit @ body @ rbrace # post \<and> body \<noteq> [] \<and>
        rbrace \<notin> set body \<and> m = input_props_lit @ body @ [rbrace])"
  (is "?lhs = ?rhs")
proof
  assume l: ?lhs
  then have pre: "prefix input_props_lit s"
    by (auto simp: match_input_props_def split: if_splits)
  then obtain rest where s: "s = input_props_lit @ rest"
    by (auto simp: prefix_def)
  define body where "body = takeWhile (\<lambda>c. c \<noteq> rbrace) rest"
  from l pre s have body: "body \<noteq> []" and less: "length body < length rest"
    and m: "m = input_props_lit @ body @ [rbrace]"
    by (auto simp: match_input_props_def Let_def body_def split: if_splits)
  have rest: "rest = body @ dropWhile (\<lambda>c. c \<noteq> rbrace) rest"
    by (simp add: body_def)
  have "length body + length (dropWhile (\<lambda>c. c \<noteq> rbrace) rest) = length rest"
    unfolding body_def by (metis length_append takeWhile_dropWhile_id)
  with less have "0 < length (dropWhile (\<lambda>c. c \<noteq> rbrace) rest)"
    by linarith
  then have ne: "dropWhile (\<lambda>c. c \<noteq> rbrace) rest \<noteq> []"
    by (rule length_greater_0_conv [THEN iffD1])
  then have "hd (dropWhile (\<lambda>c. c \<noteq> rbrace) rest) = rbrace"
    using hd_dropWhile [of "\<lambda>c. c \<noteq> rbrace" rest] by simp
  with ne obtain post where "dropWhile (\<lambda>c. c \<noteq> rbrace) rest = rbrace # post"
    by (cases "dropWhile (\<lambda>c. c \<noteq> rbrace) rest") auto
  with rest have "rest = body @ rbrace # post" by simp
  moreover have "rbrace \<notin> set body"
    unfolding body_def by (auto dest: set_takeWhileD)
  ultimately show ?rhs using s body m by blast
next
  assume ?rhs
  then obtain body post where s: "s = input_props_lit @ body @ rbrace # post"
    and body: "body \<noteq> []" and nb: "rbrace \<notin> set body"
    and m: "m = input_props_lit @ body @ [rbrace]"
    by blast
  from nb have "takeWhile (\<lambda>c. c \<noteq> rbrace) (body @ rbrace # post) = body"
    by (auto simp: takeWhile_tail)
  with body show ?lhs
    by (simp add: match_input_props_def s m Let_def)
qed

lemma re_search_Some:
  "re_search s = Some m \<Longrightarrow>
   \<exists>pre body post. s = pre @ input_props_lit @ body @ rbrace # post \<and> body \<noteq> [] \<and>
      rbrace \<notin> set body \<and> m = input_props_lit @ body @ [rbrace]"
proof (induction s)
  case Nil
  then show ?case
    by (simp add: match_input_props_def input_props_lit_nonempty)
next
  case (Cons c cs)
  show ?case
  proof (cases "match_input_props (c # cs)")
    case None
    with Cons.prems have "re_search cs = Some m" by simp
    from Cons.IH [OF this] obtain pre body post
      where "cs = pre @ input_props_lit @ body @ rbrace # post" "body \<noteq> []"
        "rbrace \<notin> set body" "m = input_props_lit @ body @ [rbrace]"
      by blast
    then have "c # cs = (c # pre) @ input_props_lit @ body @ rbrace # post \<and> body \<noteq> [] \<and>
        rbrace \<notin> set body \<and> m = input_props_lit @ body @ [rbrace]"
      by simp
    then show ?thesis by blast
  next
    case (Some m')
    with Cons.prems have "match_input_props (c # cs) = Some m" by simp
    then obtain body post where "c # cs = [] @ input_props_lit @ body @ rbrace # post \<and>
        body \<noteq> [] \<and> rbrace \<notin> set body \<and> m = input_props_lit @ body @ [rbrace]"
      unfolding match_input_props_iff by auto
    then show ?thesis by blast
  qed
qed

lemma re_search_None:
  "re_search (pre @ s) = None \<Longrightarrow> match_input_props s = None"
proof (induction pre)
  case Nil
  then show ?case by (cases s) (simp_all split: option.splits)
next
  case (Cons a pre)
  then show ?case by (simp split: option.splits)
qed

lemma re_search_None_iff:
  "re_search s = None \<longleftrightarrow>
     \<not> (\<exists>pre body post. s = pre @ input_props_lit @ body @ rbrace # post \<and> body \<noteq> [] \<and>
          rbrace \<notin> set body)"
proof
  assume none: "re_search s = None"
  show "\<not> (\<exists>pre body post. s = pre @ input_props_lit @ body @ rbrace # post \<and> body \<noteq> [] \<and>
          rbrace \<notin> set body)"
  proof
    assume "\<exists>pre body post. s = pre @ input_props_lit @ body @ rbrace # post \<and> body \<noteq> [] \<and>
          rbrace \<notin> set body"
    then obtain pre body post where s: "s = pre @ input_props_lit @ body @ rbrace # post"
      and "body \<noteq> []" "rbrace \<notin> set body" by blast
    then have "match_input_props (input_props_lit @ body @ rbrace # post) =
        Some (input_props_lit @ body @ [rbrace])"
      unfolding match_input_props_iff by blast
    moreover from none s have "match_input_props (input_props_lit @ body @ rbrace # post) = None"
      using re_search_None by blast
    ultimately show False by simp
  qed
next
  assume "\<not> (\<exists>pre body post. s = pre @ input_props_lit @ body @ rbrace # post \<and> body \<noteq> [] \<and>
          rbrace \<notin> set body)"
  then show "re_search s = None"
    using re_search_Some [of s] by (cases "re_search s") auto
qed

lemma re_search_first:
  assumes "body \<noteq> []" and "rbrace \<notin> set body"
  shows "first_at input_props_lit pre \<Longrightarrow>
    re_search (pre @ input_props_lit @ body @ rbrace # post) =
      Some (input_props_lit @ body @ [rbrace])"
proof (induction pre)
  case Nil
  from assms have "match_input_props (input_props_lit @ body @ rbrace # post) =
      Some (input_props_lit @ body @ [rbrace])"
    unfolding match_input_props_iff by blast
  then show ?case
    by (cases "input_props_lit @ body @ rbrace # post") simp_all
next
  case (Cons a pre)
  let ?rest = "body @ rbrace # post"
  have "\<not> prefix input_props_lit ((a # pre) @ input_props_lit @ ?rest)"
    using prefix_overlap [of input_props_lit "a # pre" ?rest] Cons.prems
    by (auto simp: first_at_def)
  then have "match_input_props ((a # pre) @ input_props_lit @ ?rest) = None"
    by (simp add: match_input_props_def)
  moreover have "first_at input_props_lit pre"
    using Cons.prems by (auto simp: first_at_def sublist_Cons_right)
  ultimately show ?case
    using Cons.IH by simp
qed

section \<open>Literals and the example document\<close>

lemma inj_str: "inj (of_char :: char \<Rightarrow> nat)"
  by (rule inj_of_char)

lemma str_append: "str a @ str b = str (a @ b)"
  by (simp add: str_def)

lemma str_butlast: "butlast (str a) = str (butlast a)"
  by (simp add: str_def map_butlast)

lemma str_eq_iff: "str a = str b \<longleftrightarrow> a = b"
  unfolding str_def using inj_str by (rule inj_map_eq_map)

lemma str_Nil_iff: "str a = [] \<longleftrightarrow> a = []"
  by (simp add: str_def)

lemma sublist_str: "sublist (str m) (str s) \<longleftrightarrow> sublist m s"
proof
  assume "sublist (str m) (str s)"
  then obtain ps ss where "map (of_char :: char \<Rightarrow> nat) s = ps @ map of_char m @ ss"
    by (auto simp: sublist_def str_def)
  then obtain ps' m' ss' where "s = ps' @ m' @ ss'" and "map (of_char :: char \<Rightarrow> nat) m' = map of_char m"
    by (auto simp: map_eq_append_conv append_eq_map_conv)
  then show "sublist m s"
    using inj_map_eq_map [OF inj_str] by (auto simp: sublist_def)
next
  assume "sublist m s"
  then show "sublist (str m) (str s)"
    unfolding str_def by (rule map_mono_sublist)
qed

lemma first_at_str: "first_at (str m) (str p) \<longleftrightarrow> first_at m p"
  by (simp add: first_at_def str_butlast str_append sublist_str str_Nil_iff)

lemma rbrace_str: "[rbrace] = str ''}''"
  by (simp add: rbrace_def str_def)

lemmas literal_defs = font_size_comment_def get_font_size_decl_def block_end_def card_comment_def
  card_footer_decl_def renderer_comment_def renderer_decl_def rbrace_str is_same_month_comment_def
  month_grid_comment_def cache_comment_def cache_decl_def two_newlines_def newline_def
  input_props_lit_def

lemma first_at_chars:
  "first_at (str m) (str p) \<longleftrightarrow> m \<noteq> [] \<and> \<not> sublist m (p @ butlast m)"
  unfolding first_at_str by (simp add: first_at_def)

lemma example_re_search:
  "re_search (after_card example_layout) = Some (str ''interface InputProps { value: string }'')"
proof -
  let ?pre = "keep1 example_layout @ keep2 example_layout @ renderer_comment @ str ''\<newline>''"
  let ?body = "str '' { value: string ''"
  let ?post = "str ''\<newline>'' @ renderer_decl @ renderer_body example_layout @ [rbrace] @
    keep3 example_layout @ same_month_span example_layout @ keep4 example_layout @
    grid_span example_layout @ anchor example_layout @ tail example_layout"
  have "renderer_gap example_layout =
      str ''\<newline>'' @ input_props_lit @ ?body @ [rbrace] @ str ''\<newline>''"
    by (simp add: example_layout_def literal_defs str_append str_eq_iff)
  then have buf: "after_card example_layout = ?pre @ input_props_lit @ ?body @ rbrace # ?post"
    by (simp add: after_card_def renderer_span_def)
  have first: "first_at input_props_lit ?pre"
    by (simp add: example_layout_def literal_defs str_append first_at_chars sublist_code(3))
  have body: "?body \<noteq> []" "rbrace \<notin> set ?body"
    by (simp_all add: str_def rbrace_def)
  from body first have "re_search (?pre @ input_props_lit @ ?body @ rbrace # ?post) =
      Some (input_props_lit @ ?body @ [rbrace])"
    by (rule re_search_first)
  then show ?thesis
    unfolding buf by (simp add: literal_defs str_append)
qed

lemma example_fragment:
  "fragment example_layout = str ''interface InputProps { value: string }''"
  by (simp add: fragment_def example_re_search)

lemma example_kept3: "kept3 example_layout =
    str ''\<newline>const A = 1;\<newline>\<newline>const B = 2;\<newline>interface InputProps { value: string }\<newline>\<newline>\<newline>const C = 3;\<newline>''"
  by (simp add: kept3_def example_fragment) (simp add: example_layout_def literal_defs str_append)

lemma example_well_formed: "well_formed example_layout"
  unfolding well_formed_def spans_found_def kept4_def example_kept3 grid_span_def
  by (simp add: example_layout_def literal_defs str_append first_at_chars str_eq_iff sublist_code(3))

section \<open>Missing markers\<close>


lemma content_after_imports_total:
  "\<exists>after. content_after_imports content = Inr after"
  by (simp add: content_after_imports_def Let_def remove_renderer_def input_props_total)

lemma transform_split:
  "\<exists>after. content_after_imports content = Inr after \<and>
     transform content = Inr (import_section content @ new_imports @ after)"
  using content_after_imports_total [of content]
  by (auto simp: transform_def Let_def updated_imports_def)







section \<open>Concrete runs\<close>

lemma re_search_absent:
  assumes "\<not> sublist input_props_lit s"
  shows "re_search s = None"
proof (cases "re_search s")
  case None
  then show ?thesis .
next
  case (Some m)
  from re_search_Some [OF this] obtain pre body post
    where "s = pre @ input_props_lit @ body @ rbrace # post" by blast
  then have "sublist input_props_lit s" by simp
  with assms show ?thesis by simp
qed

lemma no_props_remove:
  "remove_renderer no_props_buffer = Inr (str ''let a;\<newline>\<newline>\<newline>\<newline>let b;\<newline>'')"
proof -
  let ?k = "str ''let a;\<newline>''"
  let ?g = "str ''\<newline>''"
  let ?b = "str '' { f(): void ''"
  let ?r = "str ''\<newline>let b;\<newline>''"
  have buf: "no_props_buffer = ?k @ renderer_comment @ ?g @ renderer_decl @ ?b @ [rbrace] @ ?r"
    by (simp add: no_props_buffer_def literal_defs str_append str_eq_iff)
  have none: "re_search no_props_buffer = None"
    by (rule re_search_absent)
      (simp add: no_props_buffer_def literal_defs sublist_str sublist_code(3))
  have "first_at renderer_comment ?k"
    and "first_at renderer_decl (?k @ renderer_comment @ ?g)"
    and "first_at [rbrace] (renderer_decl @ ?b)"
    by (simp_all add: literal_defs str_append first_at_chars sublist_code(3))
  from remove_renderer_found [OF this buf] show ?thesis
    by (simp add: none literal_defs str_append)
qed




text \<open>The document with the misplaced MonthGrid comment.\<close>

lemma re_search_in_gap:
  assumes gap: "renderer_gap L = g1 @ input_props_lit @ body @ rbrace # g2"
    and body: "body \<noteq> []" "rbrace \<notin> set body"
    and first: "first_at input_props_lit (keep1 L @ keep2 L @ renderer_comment @ g1)"
  shows "re_search (after_card L) = Some (input_props_lit @ body @ [rbrace])"
proof -
  let ?pre = "keep1 L @ keep2 L @ renderer_comment @ g1"
  let ?post = "g2 @ renderer_decl @ renderer_body L @ [rbrace] @
    keep3 L @ same_month_span L @ keep4 L @ grid_span L @ anchor L @ tail L"
  have "after_card L = ?pre @ input_props_lit @ body @ rbrace # ?post"
    by (simp add: after_card_def renderer_span_def gap)
  moreover from body first have "re_search (?pre @ input_props_lit @ body @ rbrace # ?post) =
      Some (input_props_lit @ body @ [rbrace])"
    by (rule re_search_first)
  ultimately show ?thesis by simp
qed

lemma misordered_re_search:
  "re_search (after_card misordered_layout) =
     Some (str ''interface InputProps { value: string }'')"
proof -
  have "re_search (after_card misordered_layout) =
      Some (input_props_lit @ str '' { value: string '' @ [rbrace])"
  proof (rule re_search_in_gap)
    show "renderer_gap misordered_layout =
        str ''\<newline>'' @ input_props_lit @ str '' { value: string '' @ rbrace # str ''\<newline>''"
      by (simp add: misordered_layout_def example_layout_def input_props_lit_def rbrace_def str_def)
    show "str '' { value: string '' \<noteq> []" "rbrace \<notin> set (str '' { value: string '')"
      by (simp_all add: str_def rbrace_def)
    show "first_at input_props_lit (keep1 misordered_layout @ keep2 misordered_layout @
        renderer_comment @ str ''\<newline>'')"
      by (simp add: misordered_layout_def example_layout_def literal_defs str_append
          first_at_chars sublist_code(3))
  qed
  then show ?thesis
    by (simp add: literal_defs str_append)
qed

lemma misordered_kept3: "kept3 misordered_layout =
    str ''\<newline>const A = 1;\<newline>\<newline>// Update the MonthGrid to use proper types for weeks\<newline>interface InputProps { value: string }\<newline>\<newline>\<newline>const C = 3;\<newline>''"
  by (simp add: kept3_def fragment_def misordered_re_search)
    (simp add: misordered_layout_def example_layout_def literal_defs str_append)

lemma misordered_spans_found: "spans_found misordered_layout"
  unfolding spans_found_def misordered_kept3
  by (simp add: misordered_layout_def example_layout_def literal_defs str_append first_at_chars
      sublist_code(3))

lemma misordered_content_after_imports:
  "content_after_imports (document misordered_layout) =
     Inr (str ''\<newline>const A = 1;\<newline>\<newline>\<newline>// Add this outside the component to cache measurements\<newline>const measurementCache = {};\<newline>'')"
proof -
  let ?k = "str ''\<newline>const A = 1;\<newline>\<newline>''"
  let ?d = "str ''\<newline>interface InputProps { value: string }\<newline>\<newline>\<newline>const C = 3;\<newline>\<newline>const D = 4;\<newline>'' @
    month_grid_comment @ str ''\<newline>const MonthGrid = 0;\<newline>''"
  let ?t = "str ''\<newline>const measurementCache = {};\<newline>''"
  have buf: "kept4 misordered_layout @ grid_span misordered_layout @
      anchor misordered_layout @ tail misordered_layout =
      ?k @ month_grid_comment @ ?d @ cache_comment @ ?t"
    unfolding kept4_def misordered_kept3
    by (simp add: misordered_layout_def example_layout_def grid_span_def literal_defs str_append
        str_eq_iff)
  have "remove_duplicates (?k @ month_grid_comment @ ?d @ cache_comment @ ?t) =
      ?k @ newline @ cache_comment @ ?t"
  proof (rule remove_duplicates_found)
    show "first_at month_grid_comment ?k"
      by (simp add: literal_defs first_at_chars sublist_code(3))
    have "first_at cache_comment (?k @ month_grid_comment @ ?d)"
      by (simp add: literal_defs str_append first_at_chars sublist_code(3))
    then show "if cache_comment = cache_comment
      then first_at cache_comment (?k @ month_grid_comment @ ?d)
      else cache_comment = cache_decl \<and> first_at cache_decl (?k @ month_grid_comment @ ?d) \<and>
        \<not> sublist cache_comment (?k @ month_grid_comment @ ?d @ cache_comment @ ?t)"
      by simp
  qed
  then have "content_after_imports (document misordered_layout) =
      Inr (?k @ newline @ cache_comment @ ?t)"
    by (simp only: before_last_removal [OF misordered_spans_found] buf)
  then show ?thesis
    by (simp add: literal_defs str_append)
qed

section \<open>The files and the console\<close>

lemma paths_differ: "input_path \<noteq> output_path"
  by (simp add: input_path_def output_path_def)

lemma run_success:
  assumes "files w input_path = Some content" and "writable w output_path"
  shows "\<exists>final_content. transform content = Inr final_content \<and>
    run w = Inr (w\<lparr>files := (files w)(output_path \<mapsto> final_content),
                    stdout := stdout w @ status_lines\<rparr>)"
  using assms transform_split [of content] by (auto simp: run_def)

lemma run_Inr:
  assumes "run w = Inr w'"
  shows "\<exists>content final_content. files w input_path = Some content \<and>
    transform content = Inr final_content \<and> writable w output_path \<and>
    w' = w\<lparr>files := (files w)(output_path \<mapsto> final_content),
           stdout := stdout w @ status_lines\<rparr>"
  using assms by (auto simp: run_def split: option.splits sum.splits if_splits)

section \<open>The claims of the specification\<close>





text \<open>
  Claim C3. The last removal.  The anchor is the first occurrence of
  \<open>// Add this outside the component to cache measurements\<close> wherever that string occurs,
  and of \<open>const measurementCache = {\<close> otherwise.  With the MonthGrid comment and the
  anchor found one after the other, the text from the comment up to the anchor is replaced
  by a newline; where the comment or both anchors are missing, the buffer is unchanged.
\<close>

theorem anchor_removal:
  "measurement_idx buf =
     (if sublist cache_comment buf then py_find buf cache_comment 0
      else py_find buf cache_decl 0) \<and>
   (first_at month_grid_comment k \<and> first_at cache_comment (k @ month_grid_comment @ d) \<longrightarrow>
      remove_duplicates (k @ month_grid_comment @ d @ cache_comment @ t) =
        k @ newline @ cache_comment @ t) \<and>
   (first_at month_grid_comment k \<and> first_at cache_decl (k @ month_grid_comment @ d) \<and>
    \<not> sublist cache_comment (k @ month_grid_comment @ d @ cache_decl @ t) \<longrightarrow>
      remove_duplicates (k @ month_grid_comment @ d @ cache_decl @ t) =
        k @ newline @ cache_decl @ t) \<and>
   (\<not> sublist month_grid_comment buf \<or>
    (\<not> sublist cache_comment buf \<and> \<not> sublist cache_decl buf) \<longrightarrow>
      remove_duplicates buf = buf)"
proof (intro conjI impI)
  show "measurement_idx buf =
     (if sublist cache_comment buf then py_find buf cache_comment 0
      else py_find buf cache_decl 0)"
    by (rule measurement_idx_cases)
next
  assume "first_at month_grid_comment k \<and> first_at cache_comment (k @ month_grid_comment @ d)"
  then show "remove_duplicates (k @ month_grid_comment @ d @ cache_comment @ t) =
      k @ newline @ cache_comment @ t"
    by (intro remove_duplicates_found) simp_all
next
  assume a: "first_at month_grid_comment k \<and> first_at cache_decl (k @ month_grid_comment @ d) \<and>
    \<not> sublist cache_comment (k @ month_grid_comment @ d @ cache_decl @ t)"
  show "remove_duplicates (k @ month_grid_comment @ d @ cache_decl @ t) =
      k @ newline @ cache_decl @ t"
  proof (rule remove_duplicates_found)
    from a show "first_at month_grid_comment k" by simp
    from a show "if cache_decl = cache_comment
      then first_at cache_comment (k @ month_grid_comment @ d)
      else cache_decl = cache_decl \<and> first_at cache_decl (k @ month_grid_comment @ d) \<and>
           \<not> sublist cache_comment (k @ month_grid_comment @ d @ cache_decl @ t)"
      by (simp add: literal_defs str_eq_iff)
  qed
next
  assume "\<not> sublist month_grid_comment buf \<or>
    (\<not> sublist cache_comment buf \<and> \<not> sublist cache_decl buf)"
  then show "remove_duplicates buf = buf"
    by (rule remove_duplicates_not_found)
qed

theorem anchor_removal_witness:
  "first_at month_grid_comment (str ''a'') \<and>
   first_at cache_comment (str ''a'' @ month_grid_comment @ str ''b'') \<and>
   first_at cache_decl (str ''a'' @ month_grid_comment @ str ''b'') \<and>
   \<not> sublist cache_comment (str ''a'' @ month_grid_comment @ str ''b'' @ cache_decl @ str ''c'') \<and>
   \<not> sublist month_grid_comment (str ''a'' @ cache_comment) \<and>
   remove_duplicates (str ''a'' @ month_grid_comment @ str ''b'' @ cache_comment @ str ''c'') =
     str ''a'' @ newline @ cache_comment @ str ''c'' \<and>
   remove_duplicates (str ''a'' @ month_grid_comment @ str ''b'' @ cache_decl @ str ''c'') =
     str ''a'' @ newline @ cache_decl @ str ''c'' \<and>
   remove_duplicates (str ''a'' @ cache_comment) = str ''a'' @ cache_comment"
proof -
  have h: "first_at month_grid_comment (str ''a'')"
    "first_at cache_comment (str ''a'' @ month_grid_comment @ str ''b'')"
    "first_at cache_decl (str ''a'' @ month_grid_comment @ str ''b'')"
    by (simp_all add: literal_defs str_append first_at_chars sublist_code(3))
  have n: "\<not> sublist cache_comment (str ''a'' @ month_grid_comment @ str ''b'' @ cache_decl @ str ''c'')"
    "\<not> sublist month_grid_comment (str ''a'' @ cache_comment)"
    by (simp_all add: literal_defs str_append sublist_str sublist_code(3))
  from anchor_removal [of "str ''a'' @ cache_comment" "str ''a''" "str ''b''" "str ''c''"] h n
  show ?thesis by simp
qed

text \<open>
  Claim C4. The captured fragment is retained.  Where the regular expression matches the
  buffer, the match is a piece of the buffer (the literal, a non-empty text without \<open>}\<close>,
  and a \<open>}\<close>), and the step puts exactly this text, followed by two newlines, between the
  slice in front of the Renderer comment and the slice behind the Renderer block.  For a
  well-formed document the fragment stands in the output between the second and the third
  kept text, where the Renderer span was.  (For a document whose markers are out of order
  the output need not hold the fragment, as shown below.)
\<close>

theorem fragment_retained:
  "(re_search buf = Some frag \<longrightarrow>
      (\<exists>pre body post. buf = pre @ frag @ post \<and>
         frag = input_props_lit @ body @ [rbrace] \<and> body \<noteq> [] \<and> rbrace \<notin> set body) \<and>
      remove_renderer buf =
        Inr (slice_to buf (renderer_start buf) @ frag @ two_newlines @
             slice_from buf (renderer_end buf))) \<and>
   (well_formed L \<and> re_search (after_card L) = Some frag \<longrightarrow>
      transform (document L) =
        Inr (head L @ new_imports @ keep1 L @ keep2 L @ frag @ two_newlines @
             keep3 L @ keep4 L @ newline @ anchor L @ tail L))"
proof (intro conjI impI)
  assume m: "re_search buf = Some frag"
  from re_search_Some [OF m] obtain pre body post
    where "buf = pre @ input_props_lit @ body @ rbrace # post" "body \<noteq> []"
      "rbrace \<notin> set body" "frag = input_props_lit @ body @ [rbrace]"
    by blast
  then have "buf = pre @ frag @ post \<and> frag = input_props_lit @ body @ [rbrace] \<and>
      body \<noteq> [] \<and> rbrace \<notin> set body"
    by simp
  then show "\<exists>pre body post. buf = pre @ frag @ post \<and>
      frag = input_props_lit @ body @ [rbrace] \<and> body \<noteq> [] \<and> rbrace \<notin> set body"
    by blast
  from m show "remove_renderer buf =
      Inr (slice_to buf (renderer_start buf) @ frag @ two_newlines @
           slice_from buf (renderer_end buf))"
    by (simp add: remove_renderer_def input_props_total)
next
  assume "well_formed L \<and> re_search (after_card L) = Some frag"
  then have wf: "well_formed L" and "fragment L = frag"
    by (simp_all add: fragment_def)
  with transform_well_formed [OF wf]
  show "transform (document L) =
      Inr (head L @ new_imports @ keep1 L @ keep2 L @ frag @ two_newlines @
           keep3 L @ keep4 L @ newline @ anchor L @ tail L)"
    by (simp add: spliced_def retained_after_def kept4_def kept3_def)
qed

theorem fragment_retained_witness:
  "re_search (after_card example_layout) = Some (str ''interface InputProps { value: string }'') \<and>
   well_formed example_layout \<and>
   remove_renderer (after_card example_layout) =
     Inr (slice_to (after_card example_layout) (renderer_start (after_card example_layout)) @
          str ''interface InputProps { value: string }'' @ two_newlines @
          slice_from (after_card example_layout) (renderer_end (after_card example_layout))) \<and>
   transform (document example_layout) =
     Inr (head example_layout @ new_imports @ keep1 example_layout @ keep2 example_layout @
          str ''interface InputProps { value: string }'' @ two_newlines @
          keep3 example_layout @ keep4 example_layout @ newline @
          anchor example_layout @ tail example_layout)"
  using fragment_retained [of "after_card example_layout"
      "str ''interface InputProps { value: string }''" example_layout]
    example_re_search example_well_formed
  by simp

text \<open>
  Without the order of the markers the last removal can delete the fragment again.  In the
  document with the MonthGrid comment in front of the Renderer block the regular
  expression matches and the fragment is put in place of the block, but the last removal
  then cuts from that comment to the anchor: the output does not hold the fragment.
\<close>

theorem fragment_retained_counterexample:
  "re_search (after_card misordered_layout) =
     Some (str ''interface InputProps { value: string }'') \<and>
   transform (document misordered_layout) =
     Inr (str ''import React from 'react';\<newline>'' @ new_imports @
          str ''\<newline>const A = 1;\<newline>\<newline>\<newline>// Add this outside the component to cache measurements\<newline>const measurementCache = {};\<newline>'') \<and>
   \<not> sublist (str ''interface InputProps { value: string }'')
       (str ''import React from 'react';\<newline>'' @ new_imports @
        str ''\<newline>const A = 1;\<newline>\<newline>\<newline>// Add this outside the component to cache measurements\<newline>const measurementCache = {};\<newline>'')"
proof -
  have "first_at font_size_comment (head misordered_layout)"
    using misordered_spans_found by (simp add: spans_found_def)
  then have "import_end (document misordered_layout) = int (length (head misordered_layout))"
    unfolding document_split by (rule split_found)
  then have "import_section (document misordered_layout) = head misordered_layout"
    unfolding import_section_def unfolding document_split by (simp only: slice_to_append)
  moreover have "head misordered_layout = str ''import React from 'react';\<newline>''"
    by (simp add: misordered_layout_def example_layout_def)
  ultimately have t: "transform (document misordered_layout) =
     Inr (str ''import React from 'react';\<newline>'' @ new_imports @
          str ''\<newline>const A = 1;\<newline>\<newline>\<newline>// Add this outside the component to cache measurements\<newline>const measurementCache = {};\<newline>'')"
    by (simp add: transform_def Let_def updated_imports_def misordered_content_after_imports)
  have "\<not> sublist (str ''interface InputProps { value: string }'')
       (str ''import React from 'react';\<newline>'' @ new_imports @
        str ''\<newline>const A = 1;\<newline>\<newline>\<newline>// Add this outside the component to cache measurements\<newline>const measurementCache = {};\<newline>'')"
    by (simp add: new_imports_def str_append sublist_str sublist_code(3))
  with t misordered_re_search show ?thesis by simp
qed

text \<open>
  Claim C5. Where the regular expression does not match, \<open>input_props\<close> is the empty string
  and the step raises nothing: it puts the empty string and two newlines in place of the
  removed block.
\<close>

theorem missing_fragment_empty:
  "re_search buf = None \<Longrightarrow>
   input_props buf = Inr [] \<and>
   remove_renderer buf =
     Inr (slice_to buf (renderer_start buf) @ [] @ two_newlines @
          slice_from buf (renderer_end buf))"
  by (simp add: remove_renderer_def input_props_total)

theorem missing_fragment_empty_witness:
  "re_search no_props_buffer = None \<and>
   input_props no_props_buffer = Inr [] \<and>
   remove_renderer no_props_buffer =
     Inr (str ''let a;\<newline>\<newline>\<newline>\<newline>let b;\<newline>'')"
proof -
  have none: "re_search no_props_buffer = None"
    by (rule re_search_absent)
      (simp add: no_props_buffer_def literal_defs sublist_str sublist_code(3))
  from missing_fragment_empty [OF none] no_props_remove none show ?thesis
    by simp
qed



text \<open>
  Claim C7. Equal inputs give equal outputs.  Two runs in worlds whose input files hold the same
  text both succeed and write the same text, whatever else the worlds hold; and a second
  run after the first writes that text again, since the first run leaves the input as it
  was.
\<close>

theorem splice_deterministic:
  "files w1 input_path = Some content \<Longrightarrow> files w2 input_path = Some content \<Longrightarrow>
   writable w1 output_path \<Longrightarrow> writable w2 output_path \<Longrightarrow>
   \<exists>final_content w1' w2' w1''.
     transform content = Inr final_content \<and>
     run w1 = Inr w1' \<and> files w1' output_path = Some final_content \<and>
     run w2 = Inr w2' \<and> files w2' output_path = Some final_content \<and>
     run w1' = Inr w1'' \<and> files w1'' output_path = Some final_content"
proof -
  assume f1: "files w1 input_path = Some content" and f2: "files w2 input_path = Some content"
    and p1: "writable w1 output_path" and p2: "writable w2 output_path"
  from run_success [OF f1 p1] obtain final_content
    where t: "transform content = Inr final_content"
      and r1: "run w1 = Inr (w1\<lparr>files := (files w1)(output_path \<mapsto> final_content),
                    stdout := stdout w1 @ status_lines\<rparr>)" (is "_ = Inr ?w1'")
    by blast
  from run_success [OF f2 p2] t
  have r2: "run w2 = Inr (w2\<lparr>files := (files w2)(output_path \<mapsto> final_content),
                    stdout := stdout w2 @ status_lines\<rparr>)" (is "_ = Inr ?w2'")
    by auto
  have "files ?w1' input_path = Some content" "writable ?w1' output_path"
    using f1 p1 paths_differ by simp_all
  from run_success [OF this] t
  have r3: "run ?w1' = Inr (?w1'\<lparr>files := (files ?w1')(output_path \<mapsto> final_content),
                    stdout := stdout ?w1' @ status_lines\<rparr>)" (is "_ = Inr ?w1''")
    by auto
  have "files ?w1' output_path = Some final_content"
    "files ?w2' output_path = Some final_content"
    "files ?w1'' output_path = Some final_content"
    by simp_all
  with t r1 r2 r3 show ?thesis by blast
qed

theorem splice_deterministic_witness:
  "files example_world input_path = Some (document example_layout) \<and>
   files example_world2 input_path = Some (document example_layout) \<and>
   writable example_world output_path \<and> writable example_world2 output_path \<and>
   well_formed example_layout \<and>
   (\<exists>w1' w2' w1''.
     transform (document example_layout) = Inr (spliced example_layout) \<and>
     run example_world = Inr w1' \<and> files w1' output_path = Some (spliced example_layout) \<and>
     run example_world2 = Inr w2' \<and> files w2' output_path = Some (spliced example_layout) \<and>
     run w1' = Inr w1'' \<and> files w1'' output_path = Some (spliced example_layout))"
proof -
  have f1: "files example_world input_path = Some (document example_layout)"
    by (simp add: example_world_def)
  have f2: "files example_world2 input_path = Some (document example_layout)"
    by (simp add: example_world2_def paths_differ)
  have p: "writable example_world output_path" "writable example_world2 output_path"
    by (simp_all add: example_world_def example_world2_def)
  from splice_deterministic [OF f1 f2 p] transform_well_formed [OF example_well_formed]
  have "\<exists>w1' w2' w1''.
     transform (document example_layout) = Inr (spliced example_layout) \<and>
     run example_world = Inr w1' \<and> files w1' output_path = Some (spliced example_layout) \<and>
     run example_world2 = Inr w2' \<and> files w2' output_path = Some (spliced example_layout) \<and>
     run w1' = Inr w1'' \<and> files w1'' output_path = Some (spliced example_layout)"
    by auto
  with f1 f2 p example_well_formed show ?thesis by blast
qed

text \<open>
  Claim C8. The effects of a successful run.  The new world is the old one with the output file
  holding \<open>final_content\<close> and the two status lines added to the console: the input file
  and every other file are as before, and so is what may be written.
\<close>

theorem run_effects:
  "run w = Inr w' \<Longrightarrow>
   (\<exists>content final_content.
      files w input_path = Some content \<and> transform content = Inr final_content \<and>
      w' = w\<lparr>files := (files w)(output_path \<mapsto> final_content),
             stdout := stdout w @ status_lines\<rparr>) \<and>
   files w' input_path = files w input_path \<and>
   (\<forall>p. p \<noteq> output_path \<longrightarrow> files w' p = files w p) \<and>
   writable w' = writable w \<and>
   (\<exists>line1 line2. stdout w' = stdout w @ [line1, line2])"
proof -
  assume "run w = Inr w'"
  from run_Inr [OF this] obtain content final_content
    where c: "files w input_path = Some content" "transform content = Inr final_content"
      and w': "w' = w\<lparr>files := (files w)(output_path \<mapsto> final_content),
             stdout := stdout w @ status_lines\<rparr>"
    by blast
  have "files w' input_path = files w input_path"
    using paths_differ by (simp add: w')
  moreover have "\<forall>p. p \<noteq> output_path \<longrightarrow> files w' p = files w p"
    by (simp add: w')
  moreover have "writable w' = writable w"
    by (simp add: w')
  moreover have "\<exists>line1 line2. stdout w' = stdout w @ [line1, line2]"
    by (simp add: w' status_lines_def)
  ultimately show ?thesis using c w' by blast
qed

theorem run_effects_witness:
  "run example_world2 =
     Inr \<lparr>files = [input_path \<mapsto> document example_layout,
                   output_path \<mapsto> spliced example_layout],
          writable = (\<lambda>p. p = output_path),
          stdout = [''earlier line'',
            ''Updated file written to src/components/CLACalendar.updated.tsx'',
            ''Please review the changes before replacing the original file'']\<rparr> \<and>
   files \<lparr>files = [input_path \<mapsto> document example_layout,
                   output_path \<mapsto> spliced example_layout],
          writable = (\<lambda>p. p = output_path),
          stdout = [''earlier line'',
            ''Updated file written to src/components/CLACalendar.updated.tsx'',
            ''Please review the changes before replacing the original file'']\<rparr> input_path =
     files example_world2 input_path"
proof -
  let ?w' = "\<lparr>files = [input_path \<mapsto> document example_layout,
                   output_path \<mapsto> spliced example_layout],
          writable = (\<lambda>p. p = output_path),
          stdout = [''earlier line'',
            ''Updated file written to src/components/CLACalendar.updated.tsx'',
            ''Please review the changes before replacing the original file'']\<rparr>"
  have r: "run example_world2 = Inr ?w'"
    by (simp add: run_def example_world2_def paths_differ status_lines_def
        transform_well_formed [OF example_well_formed])
  from run_effects [OF r] r show ?thesis by blast
qed

text \<open>
  Claim C9. The transformation is total: for every string it returns an output and raises
  nothing.  \<open>find\<close> returns \<open>-1\<close> at worst, and \<open>group(1)\<close> is only called on a match.
\<close>

theorem transform_total:
  "(\<exists>final_content. transform content = Inr final_content) \<and>
   - 1 \<le> py_find s sub start \<and>
   (\<exists>props. input_props buf = Inr props)"
  using transform_split [of content] py_find_lower [of s sub start]
  by (auto simp: input_props_total)

text \<open>
  Claim C10. Lines 36 to 38 are dead code: the script without them computes the same
  \<open>final_content\<close> for every document.  The last removal uses \<open>measurement_idx\<close>, which is
  looked up again in the buffer of that step.
\<close>

theorem first_lookup_dead:
  "transform content = transform_without_lines_36_38 content"
  by (simp add: transform_def transform_without_lines_36_38_def Let_def)

end
